theory Spec2Isabelle
  imports Main "HOL-Library.Log_Nat"
begin

section \<open>toas2dat: times of arrival to a binned time series\<close>

text \<open>
  A shallow embedding of \<^verbatim>\<open>src/toas2dat.c\<close>: the text loader \<^verbatim>\<open>read_toas\<close>, the
  comparison function \<^verbatim>\<open>compare_doubles\<close>, and the part of \<^verbatim>\<open>main\<close> that opens the
  files, loads, sorts and normalises the TOAs and sweeps them through the output blocks.
\<close>

subsection \<open>Double precision arithmetic\<close>

text \<open>
  A finite C \<^verbatim>\<open>double\<close> is modelled by the rational number it denotes. Every arithmetic
  operation of the source on finite numbers computes the exact result and rounds it to the
  nearest number with a 53 bit significand, ties to the even significand (IEEE 754
  binary64, the default rounding mode). The exponent range is not bounded: on finite
  numbers the model agrees with the machine as long as no operation overflows or falls
  into the subnormal range. Signed zeros are not distinguished. The values of the command
  line (\<^verbatim>\<open>dt\<close>, \<^verbatim>\<open>t0\<close>) and the times computed from them are finite numbers; a TOA is any
  value of a \<^verbatim>\<open>double\<close>, see \<open>cdouble\<close> below.
\<close>

type_synonym double = rat

definition rne :: "rat \<Rightarrow> int" where
  \<comment> \<open>the nearest integer, ties to even\<close>
  "rne q = (let f = \<lfloor>q\<rfloor>; r = q - of_int f
            in if r < 1 / 2 then f else if 1 / 2 < r then f + 1
               else if even f then f else f + 1)"

definition ilog2 :: "rat \<Rightarrow> int" where
  \<comment> \<open>the binary exponent of a positive number: \<open>2 powi ilog2 x \<le> x < 2 powi (ilog2 x + 1)\<close>\<close>
  "ilog2 x = (if 1 \<le> x then bitlen \<lfloor>x\<rfloor> - 1 else - bitlen (\<lceil>1 / x\<rceil> - 1))"

definition fl :: "rat \<Rightarrow> double" where
  \<comment> \<open>rounding to 53 significant bits, sign and magnitude: \<open>u\<close> is the unit in the last
      place of \<open>x\<close>\<close>
  "fl x = (if x = 0 then 0
           else let u = 2 powi (ilog2 \<bar>x\<bar> - 52) in sgn x * of_int (rne (\<bar>x\<bar> / u)) * u)"

definition dsub :: "double \<Rightarrow> double \<Rightarrow> double" where
  "dsub a b = fl (a - b)"

definition dmul :: "double \<Rightarrow> double \<Rightarrow> double" where
  "dmul a b = fl (a * b)"

definition ddiv :: "double \<Rightarrow> double \<Rightarrow> double" where
  \<comment> \<open>for \<open>b = 0\<close> the machine gives an infinity, which the model does not have; the only
      division of the program is \<^verbatim>\<open>1.0 / cmd->dt\<close>, and for \<^verbatim>\<open>dt = 0\<close> its result is never used\<close>
  "ddiv a b = fl (a / b)"

definition of_long :: "int \<Rightarrow> double" where
  \<comment> \<open>the conversion of a \<^verbatim>\<open>long\<close> in a double expression\<close>
  "of_long i = fl (of_int i)"

definition c_int :: "double \<Rightarrow> int" where
  \<comment> \<open>the cast \<^verbatim>\<open>(int) x\<close>: truncation towards zero (the only cast of the program is
      an index, which is compared with the bounds of the buffer where it is used)\<close>
  "c_int x = (if 0 \<le> x then \<lfloor>x\<rfloor> else \<lceil>x\<rceil>)"

definition finc :: "nat \<Rightarrow> nat" where
  \<comment> \<open>\<^verbatim>\<open>x += 1.0\<close> on a \<^verbatim>\<open>float\<close> that holds a count: exact up to \<open>2^24\<close>, where
      \<open>2^24 + 1\<close> rounds back to \<open>2^24\<close>\<close>
  "finc c = (if c < 16777216 then c + 1 else c)"

definition c_div :: "int \<Rightarrow> int \<Rightarrow> int" where
  \<comment> \<open>C's \<^verbatim>\<open>/\<close> on \<^verbatim>\<open>long\<close>: the quotient truncated towards zero\<close>
  "c_div a b = sgn a * sgn b * (\<bar>a\<bar> div \<bar>b\<bar>)"

definition c_mod :: "int \<Rightarrow> int \<Rightarrow> int" where
  \<comment> \<open>C's \<^verbatim>\<open>%\<close> on \<^verbatim>\<open>long\<close>: the remainder has the sign of the dividend\<close>
  "c_mod a b = sgn a * (\<bar>a\<bar> mod \<bar>b\<bar>)"

definition WORKLEN :: int where
  "WORKLEN = 65536"

definition SECPERDAY :: double where
  "SECPERDAY = 86400"

subsection \<open>The values of a \<^verbatim>\<open>double\<close>\<close>

text \<open>
  What \<^verbatim>\<open>sscanf\<close> with \<^verbatim>\<open>"%lf"\<close> converts and what a binary file holds is any value of a
  \<^verbatim>\<open>double\<close>: a finite number, an infinity or a NaN. A comparison with a NaN is false, and
  an operation on a NaN gives a NaN.
\<close>

datatype cdouble = Num double | PInf | NInf | NaN


fun c_lt :: "cdouble \<Rightarrow> cdouble \<Rightarrow> bool" where
  \<comment> \<open>C's \<^verbatim>\<open><\<close>; \<^verbatim>\<open>a > b\<close> is \<open>c_lt b a\<close>\<close>
  "c_lt (Num x) (Num y) = (x < y)"
| "c_lt (Num x) PInf = True"
| "c_lt NInf (Num y) = True"
| "c_lt NInf PInf = True"
| "c_lt a b = False"

fun c_le :: "cdouble \<Rightarrow> cdouble \<Rightarrow> bool" where
  \<comment> \<open>C's \<^verbatim>\<open><=\<close>; \<^verbatim>\<open>a >= b\<close> is \<open>c_le b a\<close>\<close>
  "c_le (Num x) (Num y) = (x \<le> y)"
| "c_le (Num x) PInf = True"
| "c_le NInf (Num y) = True"
| "c_le NInf PInf = True"
| "c_le NInf NInf = True"
| "c_le PInf PInf = True"
| "c_le a b = False"

fun c_sub :: "cdouble \<Rightarrow> cdouble \<Rightarrow> cdouble" where
  \<comment> \<open>C's \<^verbatim>\<open>-\<close> on doubles\<close>
  "c_sub (Num x) (Num y) = Num (dsub x y)"
| "c_sub NaN b = NaN"
| "c_sub a NaN = NaN"
| "c_sub PInf PInf = NaN"
| "c_sub NInf NInf = NaN"
| "c_sub PInf b = PInf"
| "c_sub NInf b = NInf"
| "c_sub a PInf = NInf"
| "c_sub a NInf = PInf"

fun c_mul :: "cdouble \<Rightarrow> double \<Rightarrow> cdouble" where
  \<comment> \<open>C's \<^verbatim>\<open>*\<close> on doubles, the right operand a finite number\<close>
  "c_mul (Num x) y = Num (dmul x y)"
| "c_mul NaN y = NaN"
| "c_mul PInf y = (if 0 < y then PInf else if y < 0 then NInf else NaN)"
| "c_mul NInf y = (if 0 < y then NInf else if y < 0 then PInf else NaN)"

fun c_cast_int :: "cdouble \<Rightarrow> int option" where
  \<comment> \<open>the cast \<^verbatim>\<open>(int) x\<close>; None where C leaves it undefined\<close>
  "c_cast_int (Num x) = Some (c_int x)"
| "c_cast_int a = None"

subsection \<open>Sorting: \<^verbatim>\<open>compare_doubles\<close> and \<^verbatim>\<open>qsort\<close>\<close>

definition compare_doubles :: "cdouble \<Rightarrow> cdouble \<Rightarrow> int" where
  \<comment> \<open>\<^verbatim>\<open>(*da > *db) - (*da < *db)\<close>: 0 whenever an operand is a NaN\<close>
  "compare_doubles da db = (if c_lt db da then 1 else 0) - (if c_lt da db then 1 else 0)"

text \<open>
  \<^verbatim>\<open>qsort\<close> is the C library's. On an array without a NaN the comparison function is a
  total order in which equal elements are the same value: the sorted array is the only
  result \<^verbatim>\<open>qsort\<close> can give, and an insertion sort with the comparison function computes it.
  On an array with a NaN the comparison function is not an order and C does not say
  what \<^verbatim>\<open>qsort\<close> returns; the model keeps the insertion sort there.
\<close>

fun insert_by :: "('a \<Rightarrow> 'a \<Rightarrow> int) \<Rightarrow> 'a \<Rightarrow> 'a list \<Rightarrow> 'a list" where
  "insert_by cmp x [] = [x]"
| "insert_by cmp x (y # ys) = (if cmp x y \<le> 0 then x # y # ys else y # insert_by cmp x ys)"

definition qsort :: "('a \<Rightarrow> 'a \<Rightarrow> int) \<Rightarrow> 'a list \<Rightarrow> 'a list" where
  "qsort cmp xs = foldr (insert_by cmp) xs []"

subsection \<open>Failures\<close>

datatype abort =
    ExitFailure int     \<comment> \<open>\<^verbatim>\<open>exit(-1)\<close> after a diagnostic\<close>
  | NullFile            \<comment> \<open>a NULL \<^verbatim>\<open>FILE *\<close> handed to the C library: undefined behaviour\<close>
  | BufferOverrun int   \<comment> \<open>\<^verbatim>\<open>fdata[idx]\<close> written outside the \<^verbatim>\<open>WORKLEN\<close> floats: undefined behaviour\<close>
  | BadWriteCount int   \<comment> \<open>\<^verbatim>\<open>fwrite\<close> asked for a negative number of floats\<close>
  | BadCast             \<comment> \<open>\<^verbatim>\<open>(int)\<close> applied to an infinity or a NaN: undefined behaviour\<close>

subsection \<open>The text loader \<^verbatim>\<open>read_toas\<close>\<close>

text \<open>
  A stream open for reading is the list of the characters not read yet. \<^verbatim>\<open>fgets(line, n, f)\<close>
  reads at most \<open>n - 1\<close> characters and stops after a newline; it sets the end-of-file
  indicator when it runs into the end of the stream, and returns NULL when it does so
  before reading any character.
\<close>

fun fgets_chars :: "nat \<Rightarrow> string \<Rightarrow> string \<times> string \<times> bool" where
  "fgets_chars 0 s = ([], s, False)"
| "fgets_chars (Suc n) [] = ([], [], True)"
| "fgets_chars (Suc n) (c # s) =
     (if c = CHR 0x0A then ([c], s, False)
      else (case fgets_chars n s of (l, r, e) \<Rightarrow> (c # l, r, e)))"

definition fgets :: "nat \<Rightarrow> string \<Rightarrow> string option \<times> string \<times> bool" where
  \<comment> \<open>the returned pointer (None is NULL), the rest of the stream, \<^verbatim>\<open>feof\<close> afterwards\<close>
  "fgets n s = (case fgets_chars (n - 1) s of
                  (l, r, e) \<Rightarrow> (if l = [] \<and> e then None else Some l, r, e))"

definition c_string :: "string \<Rightarrow> string" where
  \<comment> \<open>what a C string function sees of a buffer: the characters before the first NUL\<close>
  "c_string l = takeWhile (\<lambda>c. c \<noteq> CHR 0x00) l"

definition goes_on :: "string option \<times> string \<times> bool \<Rightarrow> bool" where
  \<comment> \<open>the loop test \<^verbatim>\<open>!feof(infile) && sptr != NULL && sptr[0] != '\n'\<close>\<close>
  "goes_on r = (case r of (sptr, rest, eof) \<Rightarrow>
     \<not> eof \<and> (case sptr of None \<Rightarrow> False | Some l \<Rightarrow> l \<noteq> [] \<and> hd l \<noteq> CHR 0x0A))"

definition is_toa :: "(string \<Rightarrow> cdouble option) \<Rightarrow> string \<Rightarrow> bool" where
  \<comment> \<open>\<^verbatim>\<open>line[0] != '#' && sscanf(line, "%lf", &dtmp) == 1\<close>; the argument \<open>scan\<close> is the
      C library's \<^verbatim>\<open>sscanf\<close> with the format \<^verbatim>\<open>"%lf"\<close>: None when no number is converted\<close>
  "is_toa scan l = (hd l \<noteq> CHR ''#'' \<and> scan (c_string l) \<noteq> None)"

function count_toas :: "(string \<Rightarrow> cdouble option) \<Rightarrow> string \<Rightarrow> int \<Rightarrow> int" where
  "count_toas scan s numtoa =
     (let r = fgets 80 s in
      if goes_on r
      then count_toas scan (fst (snd r))
             (if is_toa scan (the (fst r)) then numtoa + 1 else numtoa)
      else numtoa)"
  by pat_completeness auto
termination
proof (relation "measure (\<lambda>(scan, s, numtoa). length s)")
  show "wf (measure (\<lambda>(scan, s, numtoa). length s))" by simp
next
  fix scan :: "string \<Rightarrow> cdouble option" and s :: string and numtoa :: int
    and r :: "string option \<times> string \<times> bool"
  assume r: "r = fgets 80 s" and g: "goes_on r"
  have len: "length (fst (fgets_chars n t)) + length (fst (snd (fgets_chars n t))) = length t"
    for n t
    by (induction n t rule: fgets_chars.induct) (auto split: prod.splits)
  from r g have "fst (fgets_chars 79 s) \<noteq> []"
    by (auto simp: fgets_def goes_on_def split: prod.splits option.splits if_splits)
  with len [of 79 s] have "length (fst (snd (fgets_chars 79 s))) < length s"
    by (cases "fst (fgets_chars 79 s)") auto
  with r show "((scan, fst (snd r), if is_toa scan (the (fst r)) then numtoa + 1 else numtoa),
                 (scan, s, numtoa)) \<in> measure (\<lambda>(scan, s, numtoa). length s)"
    by (auto simp: fgets_def split: prod.splits)
qed

declare count_toas.simps [simp del]

function fill_toas :: "(string \<Rightarrow> cdouble option) \<Rightarrow> string \<Rightarrow> cdouble list \<Rightarrow> cdouble list" where
  "fill_toas scan s toas =
     (let r = fgets 80 s in
      if goes_on r
      then fill_toas scan (fst (snd r))
             (if is_toa scan (the (fst r)) then toas @ [the (scan (c_string (the (fst r))))]
              else toas)
      else toas)"
  by pat_completeness auto
termination
proof (relation "measure (\<lambda>(scan, s, toas). length s)")
  show "wf (measure (\<lambda>(scan, s, toas). length s))" by simp
next
  fix scan :: "string \<Rightarrow> cdouble option" and s :: string and toas :: "cdouble list"
    and r :: "string option \<times> string \<times> bool"
  assume r: "r = fgets 80 s" and g: "goes_on r"
  have len: "length (fst (fgets_chars n t)) + length (fst (snd (fgets_chars n t))) = length t"
    for n t
    by (induction n t rule: fgets_chars.induct) (auto split: prod.splits)
  from r g have "fst (fgets_chars 79 s) \<noteq> []"
    by (auto simp: fgets_def goes_on_def split: prod.splits option.splits if_splits)
  with len [of 79 s] have "length (fst (snd (fgets_chars 79 s))) < length s"
    by (cases "fst (fgets_chars 79 s)") auto
  with r show "((scan, fst (snd r),
                  if is_toa scan (the (fst r)) then toas @ [the (scan (c_string (the (fst r))))]
                  else toas),
                 (scan, s, toas)) \<in> measure (\<lambda>(scan, s, toas). length s)"
    by (auto simp: fgets_def split: prod.splits)
qed

declare fill_toas.simps [simp del]

definition read_toas ::
  "(string \<Rightarrow> cdouble option) \<Rightarrow> string option \<Rightarrow> abort + int \<times> cdouble list" where
  \<comment> \<open>the first pass counts, \<^verbatim>\<open>rewind\<close>, the second pass fills the array from its start;
      a NULL stream reaches \<^verbatim>\<open>fgets\<close> unchecked\<close>
  "read_toas scan infile =
     (case infile of
        None \<Rightarrow> Inl NullFile
      | Some s \<Rightarrow> Inr (count_toas scan s 0, fill_toas scan s []))"

subsection \<open>The command line\<close>

text \<open>
  The fields of \<^verbatim>\<open>Cmdline\<close> that \<^verbatim>\<open>main\<close> reads, after the command line has been parsed and
  the values of an \<^verbatim>\<open>.inf\<close> file, if one was asked for, have been copied into it
  (\<^verbatim>\<open>parseCmdline\<close> is generated code that is not part of the source file).
\<close>

record Cmdline =
  textP :: bool
  floatP :: bool
  secP :: bool
  t0P :: bool
  t0 :: double
  dt :: double
  numout :: int

subsection \<open>The binary loader\<close>

text \<open>
  A binary file is the list of its bytes. How four or eight bytes denote a number is the
  machine's business: the decoders are arguments. \<^verbatim>\<open>getfilelen\<close> divides the size of the
  file by the size of a sample (\<^verbatim>\<open>fstat\<close> on an open file succeeds), and \<^verbatim>\<open>fread\<close> returns the
  complete samples it could read, at most as many as asked for.
\<close>

definition getfilelen :: "string option \<Rightarrow> nat \<Rightarrow> abort + int" where
  \<comment> \<open>\<^verbatim>\<open>fileno\<close> is applied to the stream unchecked\<close>
  "getfilelen file sz =
     (case file of None \<Rightarrow> Inl NullFile | Some s \<Rightarrow> Inr (int (length s div sz)))"

fun fread :: "nat \<Rightarrow> nat \<Rightarrow> string \<Rightarrow> string list" where
  "fread sz 0 s = []"
| "fread sz (Suc n) s =
     (if length s < sz then [] else take sz s # fread sz n (drop sz s))"

definition read_binary ::
  "(string \<Rightarrow> cdouble) \<Rightarrow> nat \<Rightarrow> string option \<Rightarrow> abort + int \<times> cdouble list" where
  \<comment> \<open>a binary branch of \<^verbatim>\<open>main\<close>: \<^verbatim>\<open>getfilelen\<close>, \<^verbatim>\<open>fread\<close>, and \<^verbatim>\<open>exit(-1)\<close> after a short read\<close>
  "read_binary decode sz infile =
     (case getfilelen infile sz of
        Inl e \<Rightarrow> Inl e
      | Inr ntoas \<Rightarrow>
          (let items = fread sz (nat ntoas) (the infile);
               jj = int (length items)
           in if jj \<noteq> ntoas then Inl (ExitFailure (- 1))
              else Inr (ntoas, map decode items)))"

subsection \<open>Normalisation\<close>

text \<open>
  \<^verbatim>\<open>ddata\<close> has \<^verbatim>\<open>ntoas\<close> elements. The program reads \<^verbatim>\<open>ddata[0]\<close> and \<^verbatim>\<open>*toaptr\<close> without
  looking at \<^verbatim>\<open>ntoas\<close>; a read at an index that is not below the length gives whatever the
  memory behind the array holds, the argument \<open>garbage\<close>, and is recorded.
\<close>

definition deref :: "cdouble list \<Rightarrow> cdouble \<Rightarrow> nat \<Rightarrow> cdouble \<times> bool" where
  \<comment> \<open>the value read at an index, and whether the read was outside the array\<close>
  "deref ddata garbage i = (if i < length ddata then (ddata ! i, False) else (garbage, True))"

definition origin :: "Cmdline \<Rightarrow> cdouble list \<Rightarrow> cdouble \<Rightarrow> cdouble" where
  \<comment> \<open>\<^verbatim>\<open>if (cmd->t0P) To = cmd->t0; else To = ddata[0];\<close> on the sorted array\<close>
  "origin cmd ddata garbage = (if t0P cmd then Num (t0 cmd) else fst (deref ddata garbage 0))"

definition offsets :: "Cmdline \<Rightarrow> cdouble \<Rightarrow> cdouble list \<Rightarrow> cdouble list" where
  \<comment> \<open>the two conversion loops\<close>
  "offsets cmd To ddata =
     (if secP cmd then map (\<lambda>x. c_sub x To) ddata
      else map (\<lambda>x. c_mul (c_sub x To) SECPERDAY) ddata)"

subsection \<open>The sweep\<close>

record sweep =
  toaptr :: nat             \<comment> \<open>\<^verbatim>\<open>toaptr - ddata\<close>\<close>
  toa :: cdouble
  numplaced :: int
  fdata :: "nat \<Rightarrow> nat"      \<comment> \<open>the block buffer: the count held at each index\<close>
  stray :: bool             \<comment> \<open>a TOA has been read outside \<^verbatim>\<open>ddata\<close>\<close>

definition place :: "int \<Rightarrow> double \<Rightarrow> double \<Rightarrow> sweep \<Rightarrow> abort + sweep" where
  \<comment> \<open>\<^verbatim>\<open>else if (toa >= lotime) { fdata[(int) ((toa - lotime) * dtfract)] += 1.0; numplaced++; }\<close>
      for a buffer of \<open>wl\<close> floats\<close>
  "place wl lotime dtfract s =
     (if c_le (Num lotime) (toa s)
      then (case c_cast_int (c_mul (c_sub (toa s) (Num lotime)) dtfract) of
              None \<Rightarrow> Inl BadCast
            | Some idx \<Rightarrow>
                if 0 \<le> idx \<and> idx < wl
                then Inr (s\<lparr>fdata := (fdata s)(nat idx := finc (fdata s (nat idx))),
                           numplaced := numplaced s + 1\<rparr>)
                else Inl (BufferOverrun idx))
      else Inr s)"

definition advance :: "cdouble list \<Rightarrow> cdouble \<Rightarrow> sweep \<Rightarrow> sweep" where
  \<comment> \<open>\<^verbatim>\<open>toaptr++; toa = *toaptr;\<close>\<close>
  "advance ddata garbage s =
     (let r = deref ddata garbage (toaptr s + 1)
      in s\<lparr>toaptr := toaptr s + 1, toa := fst r, stray := (stray s \<or> snd r)\<rparr>)"

function place_toas ::
  "int \<Rightarrow> cdouble list \<Rightarrow> cdouble \<Rightarrow> double \<Rightarrow> double \<Rightarrow> double \<Rightarrow> sweep \<Rightarrow> abort + sweep" where
  "place_toas wl ddata garbage lotime hitime dtfract s =
     (if toaptr s < length ddata
      then (if c_le (Num hitime) (toa s) then Inr s
            else (case place wl lotime dtfract s of
                    Inl e \<Rightarrow> Inl e
                  | Inr s' \<Rightarrow>
                      place_toas wl ddata garbage lotime hitime dtfract
                        (advance ddata garbage s')))
      else Inr s)"
  by pat_completeness auto
termination
  by (relation "measure (\<lambda>(wl, ddata, garbage, lotime, hitime, dtfract, s).
                           length ddata - toaptr s)")
     (auto simp: advance_def place_def Let_def split: if_splits option.splits)

declare place_toas.simps [simp del]

definition numwrites :: "int \<Rightarrow> int \<Rightarrow> int" where
  \<comment> \<open>\<^verbatim>\<open>(cmd->numout % WORKLEN) ? cmd->numout / WORKLEN + 1 : cmd->numout / WORKLEN\<close>\<close>
  "numwrites wl n = (if c_mod n wl \<noteq> 0 then c_div n wl + 1 else c_div n wl)"

definition numtowrite :: "int \<Rightarrow> int \<Rightarrow> int \<Rightarrow> int" where
  \<comment> \<open>\<^verbatim>\<open>((cmd->numout % WORKLEN) && (ii == (numwrites - 1))) ? cmd->numout % WORKLEN : WORKLEN\<close>\<close>
  "numtowrite wl n ii =
     (if c_mod n wl \<noteq> 0 \<and> ii = numwrites wl n - 1 then c_mod n wl else wl)"

definition fwrite :: "(nat \<Rightarrow> nat) \<Rightarrow> int \<Rightarrow> nat list list option \<Rightarrow> abort + nat list list" where
  \<comment> \<open>\<^verbatim>\<open>fwrite(fdata, sizeof(float), numtowrite, outfile)\<close>: the output file is the list of
      the blocks written so far, None a NULL stream\<close>
  "fwrite buf n outfile =
     (case outfile of
        None \<Rightarrow> Inl NullFile
      | Some blocks \<Rightarrow>
          if n < 0 then Inl (BadWriteCount n) else Inr (blocks @ [map buf [0..<nat n]]))"

function write_blocks ::
  "int \<Rightarrow> Cmdline \<Rightarrow> cdouble list \<Rightarrow> cdouble \<Rightarrow> double \<Rightarrow> double \<Rightarrow> int \<Rightarrow> sweep
     \<Rightarrow> nat list list option \<Rightarrow> abort + sweep \<times> nat list list option" where
  \<comment> \<open>the loop over the writes, from \<open>ii\<close> on\<close>
  "write_blocks wl cmd ddata garbage dtfract blockt ii s outfile =
     (if ii < numwrites wl (numout cmd)
      then (let lotime = dmul (of_long ii) blockt;
                hitime = dmul (of_long (ii + 1)) blockt
            in case place_toas wl ddata garbage lotime hitime dtfract (s\<lparr>fdata := (\<lambda>jj. 0)\<rparr>) of
                 Inl e \<Rightarrow> Inl e
               | Inr s' \<Rightarrow>
                   (case fwrite (fdata s') (numtowrite wl (numout cmd) ii) outfile of
                      Inl e \<Rightarrow> Inl e
                    | Inr blocks \<Rightarrow>
                        write_blocks wl cmd ddata garbage dtfract blockt (ii + 1) s'
                          (Some blocks)))
      else Inr (s, outfile))"
  by pat_completeness auto
termination
  by (relation "measure (\<lambda>(wl, cmd, ddata, garbage, dtfract, blockt, ii, s, outfile).
                           nat (numwrites wl (numout cmd) - ii))")
     auto

declare write_blocks.simps [simp del]

record run =
  series :: "nat list list"   \<comment> \<open>the blocks in the output file, in the order written\<close>
  placed :: int               \<comment> \<open>the number printed after \<^verbatim>\<open>Placed\<close>\<close>
  found :: int                \<comment> \<open>the number printed after \<^verbatim>\<open>Found\<close>\<close>
  strayed :: bool             \<comment> \<open>some read of a TOA was outside the array\<close>

definition bin_toas ::
  "int \<Rightarrow> Cmdline \<Rightarrow> cdouble \<Rightarrow> int \<times> cdouble list \<Rightarrow> nat list list option \<Rightarrow> abort + run" where
  \<comment> \<open>\<^verbatim>\<open>main\<close> from \<^verbatim>\<open>qsort\<close> on, for a block buffer of \<open>wl\<close> floats (\<open>wl\<close> is \<^verbatim>\<open>WORKLEN\<close>);
      \<open>loaded\<close> is \<^verbatim>\<open>ntoas\<close> and the array \<^verbatim>\<open>ddata\<close>, which has \<^verbatim>\<open>ntoas\<close> elements;
      \<^verbatim>\<open>fclose\<close> is applied to the output stream unchecked\<close>
  "bin_toas wl cmd garbage loaded outfile =
     (let ntoas = fst loaded;
          srt = qsort compare_doubles (snd loaded);
          first = deref srt garbage 0;
          To = origin cmd srt garbage;
          ddata = offsets cmd To srt;
          start = deref ddata garbage 0;
          s = \<lparr>toaptr = 0, toa = fst start, numplaced = 0, fdata = (\<lambda>jj. 0),
               stray = (if t0P cmd then snd start else (snd first \<or> snd start))\<rparr>;
          dtfract = ddiv 1 (dt cmd);
          blockt = dmul (of_long wl) (dt cmd)
      in case write_blocks wl cmd ddata garbage dtfract blockt 0 s outfile of
           Inl e \<Rightarrow> Inl e
         | Inr (s', out) \<Rightarrow>
             (case out of
                None \<Rightarrow> Inl NullFile
              | Some blocks \<Rightarrow>
                  Inr \<lparr>series = blocks, placed = numplaced s', found = ntoas,
                       strayed = stray s'\<rparr>))"

subsection \<open>\<^verbatim>\<open>main\<close>\<close>

record libc =
  sscanf_lf :: "string \<Rightarrow> cdouble option"  \<comment> \<open>\<^verbatim>\<open>sscanf(line, "%lf", &x)\<close>\<close>
  float_of :: "string \<Rightarrow> cdouble"           \<comment> \<open>the \<^verbatim>\<open>float\<close> in four bytes, widened\<close>
  double_of :: "string \<Rightarrow> cdouble"          \<comment> \<open>the \<^verbatim>\<open>double\<close> in eight bytes\<close>
  behind :: cdouble                          \<comment> \<open>what the memory behind \<^verbatim>\<open>ddata\<close> holds\<close>

definition load_toas :: "libc \<Rightarrow> Cmdline \<Rightarrow> string option \<Rightarrow> abort + int \<times> cdouble list" where
  \<comment> \<open>the text branch and the two binary branches; \<open>infile\<close> is what
      \<^verbatim>\<open>fopen(cmd->argv[0], ...)\<close> returns: the bytes of the file, or None for NULL\<close>
  "load_toas lc cmd infile =
     (if textP cmd then read_toas (sscanf_lf lc) infile
      else if floatP cmd then read_binary (float_of lc) 4 infile
      else read_binary (double_of lc) 8 infile)"

definition main :: "libc \<Rightarrow> Cmdline \<Rightarrow> string option \<Rightarrow> bool \<Rightarrow> abort + run" where
  \<comment> \<open>\<^verbatim>\<open>main\<close> from "Open our files and read the TOAs" on; \<open>writable\<close> says whether
      \<^verbatim>\<open>fopen(cmd->outfile, "wb")\<close> succeeds. Inr is \<^verbatim>\<open>exit(0)\<close>.\<close>
  "main lc cmd infile writable =
     (case load_toas lc cmd infile of
        Inl e \<Rightarrow> Inl e
      | Inr loaded \<Rightarrow>
          bin_toas WORKLEN cmd (behind lc) loaded (if writable then Some [] else None))"

subsection \<open>Reference notions\<close>

definition grid_histogram :: "double \<Rightarrow> int \<Rightarrow> cdouble list \<Rightarrow> nat list" where
  \<comment> \<open>the histogram of the offsets over the grid of \<open>n\<close> bins of width \<open>w\<close> that starts at the
      origin: bin \<open>k\<close> counts the offsets in \<open>[k * w, (k + 1) * w)\<close>\<close>
  "grid_histogram w n ts =
     map (\<lambda>k. length (filter (\<lambda>t. c_le (Num (of_nat k * w)) t \<and>
                                  c_lt t (Num ((of_nat k + 1) * w))) ts)) [0..<nat n]"

definition text_of :: "string list \<Rightarrow> string" where
  \<comment> \<open>the stream made of the given lines, each ended by a newline\<close>
  "text_of ls = concat (map (\<lambda>l. l @ [CHR 0x0A]) ls)"

definition loaded_lines :: "(string \<Rightarrow> cdouble option) \<Rightarrow> string list \<Rightarrow> string list" where
  \<comment> \<open>of the lines before the first empty line, those that do not start with \<^verbatim>\<open>#\<close> and from
      which \<open>scan\<close> converts a number\<close>
  "loaded_lines scan ls =
     filter (\<lambda>l. hd l \<noteq> CHR ''#'' \<and> scan (c_string (l @ [CHR 0x0A])) \<noteq> None)
       (takeWhile (\<lambda>l. l \<noteq> []) ls)"

text \<open>
  A scanner for concrete streams: what \<^verbatim>\<open>sscanf\<close> with \<^verbatim>\<open>"%lf"\<close> converts from a buffer that
  starts, after white space and an optional sign, with a plain decimal numeral (digits,
  an optional fraction; no exponent) or with \<^verbatim>\<open>nan\<close> or \<^verbatim>\<open>inf\<close> in lower case, and None where
  none of these is found.
\<close>

definition is_space :: "char \<Rightarrow> bool" where
  "is_space c = (c \<in> set [CHR 0x20, CHR 0x09, CHR 0x0A, CHR 0x0B, CHR 0x0C, CHR 0x0D])"

definition is_digit :: "char \<Rightarrow> bool" where
  "is_digit c = (48 \<le> (of_char c :: int) \<and> (of_char c :: int) \<le> 57)"

definition digits_val :: "string \<Rightarrow> int" where
  "digits_val ds = foldl (\<lambda>a c. 10 * a + (of_char c - 48)) 0 ds"

definition scan_decimal :: "string \<Rightarrow> cdouble option" where
  "scan_decimal l =
     (let t = dropWhile is_space l;
          neg = (t \<noteq> [] \<and> hd t = CHR ''-'');
          t1 = (if t \<noteq> [] \<and> (hd t = CHR ''-'' \<or> hd t = CHR ''+'') then tl t else t);
          ip = takeWhile is_digit t1;
          t2 = dropWhile is_digit t1;
          fp = (if t2 \<noteq> [] \<and> hd t2 = CHR ''.'' then takeWhile is_digit (tl t2) else [])
      in if take 3 t1 = ''nan'' then Some NaN
         else if take 3 t1 = ''inf'' then Some (if neg then NInf else PInf)
         else if ip = [] \<and> fp = [] then None
         else Some (Num (fl ((if neg then - 1 else 1) *
                (of_int (digits_val ip) + of_int (digits_val fp) / 10 ^ length fp)))))"

definition plain_libc :: libc where
  \<comment> \<open>a C library for text runs: nothing is decoded, and a zero lies behind the array\<close>
  "plain_libc = \<lparr>sscanf_lf = scan_decimal, float_of = (\<lambda>b. Num 0), double_of = (\<lambda>b. Num 0),
                  behind = Num 0\<rparr>"

definition seconds_from_zero :: "double \<Rightarrow> int \<Rightarrow> Cmdline" where
  \<comment> \<open>a text run in seconds with the epoch 0, the bin width \<open>w\<close> and \<open>n\<close> output points:
      \<^verbatim>\<open>-text -sec -t0 0 -dt w -numout n\<close>\<close>
  "seconds_from_zero w n =
     \<lparr>textP = True, floatP = False, secP = True, t0P = True, t0 = 0, dt = w, numout = n\<rparr>"


section \<open>Properties\<close>

subsection \<open>The number and the lengths of the blocks\<close>

lemma c_mod_nonneg: "0 \<le> n \<Longrightarrow> 1 \<le> wl \<Longrightarrow> c_mod n wl = n mod wl"
  by (cases "n = 0") (simp_all add: c_mod_def)

lemma c_div_nonneg: "0 \<le> n \<Longrightarrow> 1 \<le> wl \<Longrightarrow> c_div n wl = n div wl"
  by (cases "n = 0") (simp_all add: c_div_def)

lemma numwrites_eq:
  assumes "0 \<le> n" "1 \<le> wl"
  shows "numwrites wl n = (if n mod wl \<noteq> 0 then n div wl + 1 else n div wl)"
  using assms by (simp add: numwrites_def c_mod_nonneg c_div_nonneg)

lemma numwrites_ceiling:
  assumes "0 \<le> n" "1 \<le> wl"
  shows "numwrites wl n = \<lceil>rat_of_int n / rat_of_int wl\<rceil>"
proof -
  have "\<lceil>rat_of_int n / rat_of_int wl\<rceil> = - ((- n) div wl)"
    by (rule ceiling_divide_eq_div)
  also have "\<dots> = (if n mod wl \<noteq> 0 then n div wl + 1 else n div wl)"
    using assms by (simp add: zdiv_zminus1_eq_if)
  finally show ?thesis using assms by (simp add: numwrites_eq)
qed

lemma numtowrite_eq:
  assumes "0 \<le> n" "1 \<le> wl"
  shows "numtowrite wl n ii =
     (if n mod wl \<noteq> 0 \<and> ii = numwrites wl n - 1 then n mod wl else wl)"
  using assms by (simp add: numtowrite_def c_mod_nonneg)

lemma numtowrite_nonneg: "0 \<le> n \<Longrightarrow> 1 \<le> wl \<Longrightarrow> 0 \<le> numtowrite wl n ii"
  by (simp add: numtowrite_eq)

lemma numwrites_nonneg: "0 \<le> n \<Longrightarrow> 1 \<le> wl \<Longrightarrow> 0 \<le> numwrites wl n"
  by (simp add: numwrites_eq pos_imp_zdiv_nonneg_iff)

lemma numwrites_split:
  assumes "0 \<le> n" "1 \<le> wl"
  obtains q r where "n = q * wl + r" "0 \<le> r" "r < wl" "0 \<le> q"
    "numwrites wl n = (if r \<noteq> 0 then q + 1 else q)"
    "\<And>ii. numtowrite wl n ii = (if r \<noteq> 0 \<and> ii = numwrites wl n - 1 then r else wl)"
proof
  show "n = n div wl * wl + n mod wl" by simp
  show "0 \<le> n mod wl" "n mod wl < wl" using assms by simp_all
  show "0 \<le> n div wl" using assms by (simp add: pos_imp_zdiv_nonneg_iff)
  show "numwrites wl n = (if n mod wl \<noteq> 0 then n div wl + 1 else n div wl)"
    using assms by (rule numwrites_eq)
  show "numtowrite wl n ii = (if n mod wl \<noteq> 0 \<and> ii = numwrites wl n - 1 then n mod wl else wl)"
    for ii using assms by (rule numtowrite_eq)
qed

lemma numwrites_covers:
  assumes "0 \<le> n" "1 \<le> wl"
  shows "n \<le> numwrites wl n * wl" and "(numwrites wl n - 1) * wl < n \<or> n = 0"
proof -
  obtain q r where d: "n = q * wl + r" and m: "0 \<le> r" "r < wl" and q: "0 \<le> q"
    and N: "numwrites wl n = (if r \<noteq> 0 then q + 1 else q)"
    using numwrites_split [OF assms] by metis
  define N where "N = numwrites wl n"
  have N': "N = (if r \<noteq> 0 then q + 1 else q)" using N by (simp add: N_def)
  have "n \<le> N * wl" using m d by (simp add: N' algebra_simps)
  then show "n \<le> numwrites wl n * wl" by (simp add: N_def)
  have "(N - 1) * wl < n \<or> n = 0"
    using m d assms(2) q by (cases "r = 0"; cases "q = 0") (simp_all add: N' algebra_simps)
  then show "(numwrites wl n - 1) * wl < n \<or> n = 0" by (simp add: N_def)
qed

lemma last_block_length:
  assumes "0 \<le> n" "1 \<le> wl" "0 < numwrites wl n"
  shows "numtowrite wl n (numwrites wl n - 1) = n - (numwrites wl n - 1) * wl"
proof -
  obtain q r where d: "n = q * wl + r"
    and N: "numwrites wl n = (if r \<noteq> 0 then q + 1 else q)"
    and W: "\<And>ii. numtowrite wl n ii = (if r \<noteq> 0 \<and> ii = numwrites wl n - 1 then r else wl)"
    using numwrites_split [OF assms(1,2)] by metis
  define N where "N = numwrites wl n"
  have N': "N = (if r \<noteq> 0 then q + 1 else q)" using N by (simp add: N_def)
  have "numtowrite wl n (N - 1) = (if r \<noteq> 0 then r else wl)"
    using W [of "N - 1"] by (simp add: N_def)
  also have "\<dots> = n - (N - 1) * wl" using d by (simp add: N' algebra_simps)
  finally show ?thesis by (simp add: N_def)
qed

lemma sum_numtowrite_from:
  assumes "0 \<le> n" "1 \<le> wl" "0 \<le> ii" "ii \<le> numwrites wl n"
  shows "sum_list (map (numtowrite wl n) [ii..numwrites wl n - 1]) = max 0 (n - ii * wl)"
proof -
  define N where "N = numwrites wl n"
  have cov: "n \<le> N * wl" "(N - 1) * wl < n \<or> n = 0"
    using numwrites_covers [OF assms(1,2)] by (simp_all add: N_def)
  have "0 \<le> j \<Longrightarrow> j = N - int k \<Longrightarrow>
        sum_list (map (numtowrite wl n) [j..N - 1]) = max 0 (n - j * wl)" for j k
  proof (induction k arbitrary: j)
    case 0
    then show ?case using cov(1) by simp
  next
    case (Suc k)
    then have lt: "j < N" and nx: "j + 1 = N - int k" and i0: "0 \<le> j" by simp_all
    have up: "[j..N - 1] = j # [j + 1..N - 1]"
      using lt by (simp add: upto_rec1)
    have rest: "sum_list (map (numtowrite wl n) [j + 1..N - 1]) = max 0 (n - (j + 1) * wl)"
      using i0 by (intro Suc.IH [OF _ nx]) simp
    have pos: "0 < numwrites wl n" using lt i0 by (simp add: N_def)
    have n0: "n \<noteq> 0" using pos assms(1,2) by (auto simp: numwrites_eq)
    show ?case
    proof (cases "j = N - 1")
      case True
      have "numtowrite wl n j = n - j * wl"
        using last_block_length [OF assms(1,2) pos] True by (simp add: N_def)
      moreover have "0 < n - j * wl"
        using True cov(2) n0 by simp
      moreover have "n - (j + 1) * wl \<le> 0"
        using True cov(1) by simp
      ultimately show ?thesis by (simp add: up rest)
    next
      case False
      with lt have lt2: "j + 1 \<le> N - 1" by simp
      have w: "numtowrite wl n j = wl"
        using False assms by (simp add: numtowrite_eq N_def)
      have "(j + 1) * wl \<le> (N - 1) * wl"
        using lt2 assms(2) by (intro mult_right_mono) simp_all
      with cov(2) n0 have "(j + 1) * wl < n" by simp
      then have "max 0 (n - (j + 1) * wl) = n - j * wl - wl"
        by (simp add: algebra_simps)
      moreover have "0 < n - j * wl - wl"
        using \<open>(j + 1) * wl < n\<close> by (simp add: algebra_simps)
      moreover have "0 < wl" using assms(2) by simp
      ultimately show ?thesis by (simp add: up rest w)
    qed
  qed
  from this [of ii "nat (N - ii)"] assms(3,4) show ?thesis by (simp add: N_def)
qed

lemma sum_numtowrite:
  assumes "0 \<le> n" "1 \<le> wl"
  shows "sum_list (map (numtowrite wl n) [0..numwrites wl n - 1]) = n"
  using sum_numtowrite_from [OF assms, of 0] numwrites_nonneg [OF assms] assms by simp

subsection \<open>The block loop\<close>

lemma place_toas_empty [simp]: "place_toas wl [] g lo hi df s = Inr s"
  by (subst place_toas.simps) simp

lemma write_blocks_done:
  "\<not> ii < numwrites wl (numout cmd) \<Longrightarrow> write_blocks wl cmd ddata g df bt ii s outfile = Inr (s, outfile)"
  by (subst write_blocks.simps) simp

lemma write_blocks_step:
  assumes "ii < numwrites wl (numout cmd)"
  shows "write_blocks wl cmd ddata g df bt ii s outfile =
     (case place_toas wl ddata g (dmul (of_long ii) bt)
             (dmul (of_long (ii + 1)) bt) df
             (s\<lparr>fdata := (\<lambda>jj. 0)\<rparr>) of
        Inl e \<Rightarrow> Inl e
      | Inr s' \<Rightarrow>
          (case fwrite (fdata s') (numtowrite wl (numout cmd) ii) outfile of
             Inl e \<Rightarrow> Inl e
           | Inr blocks \<Rightarrow> write_blocks wl cmd ddata g df bt (ii + 1) s' (Some blocks)))"
  using assms by (subst write_blocks.simps) (simp add: Let_def)

lemma write_blocks_series:
  assumes "write_blocks wl cmd ddata g df bt ii s outfile = Inr (s', out)" "outfile = Some bs"
    "0 \<le> numout cmd" "1 \<le> wl" "0 \<le> ii" "ii \<le> numwrites wl (numout cmd)"
  shows "\<exists>bs'. out = Some (bs @ bs') \<and>
           map (\<lambda>b. int (length b)) bs' =
           map (numtowrite wl (numout cmd)) [ii..numwrites wl (numout cmd) - 1]"
  using assms
proof (induction wl cmd ddata g df bt ii s outfile arbitrary: bs rule: write_blocks.induct)
  case (1 wl cmd ddata g df bt ii s outfile)
  let ?N = "numwrites wl (numout cmd)"
  show ?case
  proof (cases "ii < ?N")
    case False
    with "1.prems" have "ii = ?N" by simp
    moreover from False "1.prems"(1) have "out = outfile"
      by (simp add: write_blocks_done)
    ultimately show ?thesis using "1.prems"(2) by simp
  next
    case True
    let ?lo = "dmul (of_long ii) bt"
    let ?hi = "dmul (of_long (ii + 1)) bt"
    let ?k = "numtowrite wl (numout cmd) ii"
    from "1.prems"(1) True obtain s1 blocks where
      p: "place_toas wl ddata g ?lo ?hi df (s\<lparr>fdata := (\<lambda>jj. 0)\<rparr>) = Inr s1"
      and w: "fwrite (fdata s1) ?k outfile = Inr blocks"
      and r: "write_blocks wl cmd ddata g df bt (ii + 1) s1 (Some blocks) = Inr (s', out)"
      by (auto simp: write_blocks_step split: sum.splits)
    have k0: "0 \<le> ?k" using "1.prems" by (simp add: numtowrite_nonneg)
    from w "1.prems"(2) k0 have b: "blocks = bs @ [map (fdata s1) [0..<nat ?k]]"
      by (simp add: fwrite_def)
    have "\<exists>bs'. out = Some (blocks @ bs') \<and>
           map (\<lambda>b. int (length b)) bs' =
           map (numtowrite wl (numout cmd)) [ii + 1..?N - 1]"
      using True "1.prems"(3,4,5)
      by (intro "1.IH" [OF True refl refl p w r refl]) simp_all
    then obtain bs' where o: "out = Some (blocks @ bs')"
      and l: "map (\<lambda>b. int (length b)) bs' = map (numtowrite wl (numout cmd)) [ii + 1..?N - 1]"
      by blast
    have up: "[ii..?N - 1] = ii # [ii + 1..?N - 1]"
      using True by (simp add: upto_rec1)
    show ?thesis
      using o l k0 by (intro exI [of _ "map (fdata s1) [0..<nat ?k] # bs'"]) (simp add: b up)
  qed
qed

lemma write_blocks_empty:
  assumes "ddata = []" "outfile = Some bs"
    "0 \<le> numout cmd" "1 \<le> wl" "0 \<le> ii" "ii \<le> numwrites wl (numout cmd)"
  shows "\<exists>s'. write_blocks wl cmd ddata g df bt ii s outfile =
           Inr (s', Some (bs @ map (\<lambda>i. replicate (nat (numtowrite wl (numout cmd) i)) 0)
                                [ii..numwrites wl (numout cmd) - 1]))
         \<and> numplaced s' = numplaced s \<and> stray s' = stray s"
  using assms
proof (induction wl cmd ddata g df bt ii s outfile arbitrary: bs rule: write_blocks.induct)
  case (1 wl cmd ddata g df bt ii s outfile)
  let ?N = "numwrites wl (numout cmd)"
  show ?case
  proof (cases "ii < ?N")
    case False
    with "1.prems" have "ii = ?N" by simp
    with False "1.prems"(2) show ?thesis by (simp add: write_blocks_done)
  next
    case True
    let ?lo = "dmul (of_long ii) bt"
    let ?hi = "dmul (of_long (ii + 1)) bt"
    let ?k = "numtowrite wl (numout cmd) ii"
    let ?s1 = "s\<lparr>fdata := (\<lambda>jj. 0)\<rparr>"
    let ?blocks = "bs @ [replicate (nat ?k) 0]"
    have p: "place_toas wl ddata g ?lo ?hi df ?s1 = Inr ?s1"
      using "1.prems"(1) by simp
    have k0: "0 \<le> ?k" using "1.prems" by (simp add: numtowrite_nonneg)
    have w: "fwrite (fdata ?s1) ?k outfile = Inr ?blocks"
      using "1.prems"(2) k0 by (simp add: fwrite_def map_replicate_const)
    have "\<exists>s'. write_blocks wl cmd ddata g df bt (ii + 1) ?s1 (Some ?blocks) =
           Inr (s', Some (?blocks @ map (\<lambda>i. replicate (nat (numtowrite wl (numout cmd) i)) 0)
                                [ii + 1..?N - 1]))
         \<and> numplaced s' = numplaced ?s1 \<and> stray s' = stray ?s1"
      using True "1.prems"(1,3,4,5)
      by (intro "1.IH" [OF True refl refl p w]) simp_all
    moreover have up: "[ii..?N - 1] = ii # [ii + 1..?N - 1]"
      using True by (simp add: upto_rec1)
    ultimately show ?thesis
      using True p w by (auto simp: write_blocks_step)
  qed
qed

text \<open>
  The cast in the sweep is always applied to a finite number: a TOA that is not below
  \<open>hitime\<close> ends the loop, and a NaN or a negative infinity is not at or above \<open>lotime\<close>.
\<close>

lemma place_bad_cast:
  assumes "place wl lo df s = Inl BadCast"
  shows "c_le (Num hi) (toa s)"
  using assms
  by (cases "toa s") (auto simp: place_def split: if_splits option.splits)

lemma place_toas_no_bad_cast: "place_toas wl ddata g lo hi df s \<noteq> Inl BadCast"
proof (induction wl ddata g lo hi df s rule: place_toas.induct)
  case (1 wl ddata garbage lotime hitime dtfract s)
  show ?case
  proof (cases "toaptr s < length ddata \<and> \<not> c_le (Num hitime) (toa s)")
    case False
    then show ?thesis by (subst place_toas.simps) auto
  next
    case True
    show ?thesis
    proof (cases "place wl lotime dtfract s")
      case (Inl e)
      with True place_bad_cast [of wl lotime dtfract s hitime] have "e \<noteq> BadCast" by auto
      with True Inl show ?thesis by (subst place_toas.simps) simp
    next
      case (Inr s')
      with True "1.IH" [of s'] show ?thesis by (subst place_toas.simps) simp
    qed
  qed
qed

subsection \<open>Rounding: to a nearest number, and monotone\<close>





lemma rne_nearest: "\<bar>rat_of_int (rne q) - q\<bar> \<le> 1 / 2"
proof -
  define r where "r = q - rat_of_int \<lfloor>q\<rfloor>"
  have r: "0 \<le> r" "r < 1" using floor_correct [of q] by (simp_all add: r_def)
  have q: "q = rat_of_int \<lfloor>q\<rfloor> + r" by (simp add: r_def)
  have "rne q = (if r < 1 / 2 then \<lfloor>q\<rfloor> else if 1 / 2 < r then \<lfloor>q\<rfloor> + 1
                 else if even \<lfloor>q\<rfloor> then \<lfloor>q\<rfloor> else \<lfloor>q\<rfloor> + 1)"
    by (simp add: rne_def Let_def r_def)
  then have "rat_of_int (rne q) - q = - r \<and> r \<le> 1 / 2 \<or>
             rat_of_int (rne q) - q = 1 - r \<and> 1 / 2 \<le> r"
    using q by (auto split: if_splits)
  with r show ?thesis by auto
qed










lemma fl_nearest:
  assumes "x \<noteq> 0"
  shows "\<bar>fl x - x\<bar> \<le> 2 powi (ilog2 \<bar>x\<bar> - 52) / 2"
proof -
  define u :: rat where "u = 2 powi (ilog2 \<bar>x\<bar> - 52)"
  define m :: rat where "m = of_int (rne (\<bar>x\<bar> / u))"
  have u: "0 < u" by (simp add: u_def)
  have "fl x = sgn x * (m * u)"
    using assms by (simp add: fl_def Let_def u_def m_def mult.assoc)
  then have "fl x - x = sgn x * (m * u - \<bar>x\<bar>)"
    by (simp add: right_diff_distrib mult_sgn_abs)
  then have "\<bar>fl x - x\<bar> = \<bar>m * u - \<bar>x\<bar>\<bar>"
    using assms by (simp add: abs_mult abs_sgn_eq)
  also have "m * u - \<bar>x\<bar> = (m - \<bar>x\<bar> / u) * u"
    using u by (simp add: left_diff_distrib)
  also have "\<bar>(m - \<bar>x\<bar> / u) * u\<bar> = \<bar>m - \<bar>x\<bar> / u\<bar> * u"
    using u by (simp add: abs_mult)
  also have "\<dots> \<le> 1 / 2 * u"
    using u rne_nearest [of "\<bar>x\<bar> / u"] by (intro mult_right_mono) (simp_all add: m_def)
  finally show ?thesis by (simp add: u_def)
qed

subsection \<open>Sorting and normalisation\<close>


lemma set_insert_by: "set (insert_by cmp x xs) = insert x (set xs)"
  by (induction xs) auto

lemma length_insert_by: "length (insert_by cmp x xs) = Suc (length xs)"
  by (induction xs) auto

lemma length_qsort: "length (qsort cmp xs) = length xs"
  unfolding qsort_def by (induction xs) (simp_all add: length_insert_by)

lemma set_qsort: "set (qsort cmp xs) = set xs"
  unfolding qsort_def by (induction xs) (simp_all add: set_insert_by)









text \<open>An array of two or more elements with a NaN is not in order, wherever the NaN is.\<close>

lemma nan_unsorted:
  assumes "NaN \<in> set ys" "2 \<le> length ys"
  shows "\<not> sorted_wrt c_le ys"
proof
  assume "sorted_wrt c_le ys"
  then have s: "c_le (ys ! i) (ys ! j)" if "i < j" "j < length ys" for i j
    using that by (simp add: sorted_wrt_iff_nth_less)
  from assms(1) obtain i where i: "i < length ys" "ys ! i = NaN"
    by (auto simp: in_set_conv_nth)
  show False
  proof (cases "i = 0")
    case True
    have "c_le (ys ! 0) (ys ! 1)" using assms(2) by (intro s) simp_all
    with True i show False by simp
  next
    case False
    then have "c_le (ys ! 0) (ys ! i)" using i(1) by (intro s) simp_all
    with i show False by (cases "ys ! 0") simp_all
  qed
qed

lemma nan_offsets:
  assumes "NaN \<in> set ddata"
  shows "NaN \<in> set (offsets cmd To ddata)"
proof -
  have "c_sub NaN To = NaN" by (cases To) simp_all
  with assms show ?thesis by (force simp: offsets_def)
qed

lemma nan_offsets_unsorted:
  assumes "NaN \<in> set toas" "2 \<le> length toas"
  shows "\<not> sorted_wrt c_le (offsets cmd To (qsort cmp toas))"
proof -
  have "NaN \<in> set (offsets cmd To (qsort cmp toas))"
    using assms(1) by (intro nan_offsets) (simp add: set_qsort)
  moreover have "2 \<le> length (offsets cmd To (qsort cmp toas))"
    using assms(2) by (simp add: offsets_def length_qsort)
  ultimately show ?thesis by (rule nan_unsorted)
qed

subsection \<open>The text loader on a stream of lines\<close>

lemma fgets_chars_line:
  assumes "CHR 0x0A \<notin> set l" "length l < n"
  shows "fgets_chars n (l @ CHR 0x0A # rest) = (l @ [CHR 0x0A], rest, False)"
  using assms
proof (induction l arbitrary: n)
  case Nil
  then show ?case by (cases n) simp_all
next
  case (Cons c l)
  then obtain k where "n = Suc k" by (cases n) auto
  with Cons show ?case by auto
qed

lemma fgets_line:
  assumes "CHR 0x0A \<notin> set l" "length l < 79"
  shows "fgets 80 (l @ CHR 0x0A # rest) = (Some (l @ [CHR 0x0A]), rest, False)"
  using fgets_chars_line [OF assms, of rest] by (simp add: fgets_def)

lemma fgets_end: "fgets 80 [] = (None, [], True)"
  by (simp add: fgets_def) code_simp

lemma text_of_Cons: "text_of (l # ls) = l @ CHR 0x0A # text_of ls"
  by (simp add: text_of_def)

lemma text_of_Nil: "text_of [] = []"
  by (simp add: text_of_def)

lemma goes_on_line:
  assumes "CHR 0x0A \<notin> set l" "l \<noteq> []"
  shows "goes_on (Some (l @ [CHR 0x0A]), rest, False)"
  using assms by (cases l) (auto simp: goes_on_def)

lemma is_toa_line: "l \<noteq> [] \<Longrightarrow>
  is_toa scan (l @ [CHR 0x0A]) \<longleftrightarrow> hd l \<noteq> CHR ''#'' \<and> scan (c_string (l @ [CHR 0x0A])) \<noteq> None"
  by (cases l) (simp_all add: is_toa_def)

lemma count_toas_lines:
  assumes "\<forall>l\<in>set ls. CHR 0x0A \<notin> set l \<and> length l < 79"
  shows "count_toas scan (text_of ls) k = k + int (length (loaded_lines scan ls))"
  using assms
proof (induction ls arbitrary: k)
  case Nil
  show ?case
    by (subst count_toas.simps) (simp add: text_of_Nil fgets_end goes_on_def loaded_lines_def)
next
  case (Cons l ls)
  then have l: "CHR 0x0A \<notin> set l" "length l < 79" by simp_all
  have f: "fgets 80 (text_of (l # ls)) = (Some (l @ [CHR 0x0A]), text_of ls, False)"
    unfolding text_of_Cons by (rule fgets_line [OF l])
  show ?case
  proof (cases "l = []")
    case True
    with f have "fgets 80 (text_of ([] # ls)) = (Some [CHR 0x0A], text_of ls, False)" by simp
    with True show ?thesis
      by (subst count_toas.simps) (simp add: goes_on_def loaded_lines_def)
  next
    case False
    then have g: "goes_on (Some (l @ [CHR 0x0A]), text_of ls, False)"
      using l by (simp add: goes_on_line)
    have ih: "count_toas scan (text_of ls) k' = k' + int (length (loaded_lines scan ls))" for k'
      using Cons by simp
    show ?thesis
      using False
      by (subst count_toas.simps) (simp add: f g ih is_toa_line loaded_lines_def)
  qed
qed

lemma fill_toas_lines:
  assumes "\<forall>l\<in>set ls. CHR 0x0A \<notin> set l \<and> length l < 79"
  shows "fill_toas scan (text_of ls) acc =
         acc @ map (\<lambda>l. the (scan (c_string (l @ [CHR 0x0A])))) (loaded_lines scan ls)"
  using assms
proof (induction ls arbitrary: acc)
  case Nil
  show ?case
    by (subst fill_toas.simps) (simp add: text_of_Nil fgets_end goes_on_def loaded_lines_def)
next
  case (Cons l ls)
  then have l: "CHR 0x0A \<notin> set l" "length l < 79" by simp_all
  have f: "fgets 80 (text_of (l # ls)) = (Some (l @ [CHR 0x0A]), text_of ls, False)"
    unfolding text_of_Cons by (rule fgets_line [OF l])
  show ?case
  proof (cases "l = []")
    case True
    with f have "fgets 80 (text_of ([] # ls)) = (Some [CHR 0x0A], text_of ls, False)" by simp
    with True show ?thesis
      by (subst fill_toas.simps) (simp add: goes_on_def loaded_lines_def)
  next
    case False
    then have g: "goes_on (Some (l @ [CHR 0x0A]), text_of ls, False)"
      using l by (simp add: goes_on_line)
    have ih: "fill_toas scan (text_of ls) acc' =
         acc' @ map (\<lambda>l. the (scan (c_string (l @ [CHR 0x0A])))) (loaded_lines scan ls)" for acc'
      using Cons by simp
    show ?thesis
      using False
      by (subst fill_toas.simps) (simp add: f g ih is_toa_line loaded_lines_def)
  qed
qed

subsection \<open>The loaders return the number of elements loaded\<close>

lemma count_fill:
  "count_toas scan s k - k = int (length (fill_toas scan s acc)) - int (length acc)"
proof (induction scan s acc arbitrary: k rule: fill_toas.induct)
  case (1 scan s toas)
  show ?case
  proof (cases "goes_on (fgets 80 s)")
    case False
    then show ?thesis
      by (subst count_toas.simps, subst fill_toas.simps) (simp add: Let_def)
  next
    case True
    from "1.IH" [OF refl True, of "k + 1"] "1.IH" [OF refl True, of k] True show ?thesis
      by (subst count_toas.simps, subst fill_toas.simps) (auto simp: Let_def)
  qed
qed

lemma length_fread: "0 < sz \<Longrightarrow> length (fread sz n s) = min n (length s div sz)"
proof (induction n arbitrary: s)
  case 0
  show ?case by simp
next
  case (Suc n)
  show ?case
  proof (cases "length s < sz")
    case True
    then show ?thesis by simp
  next
    case False
    then have "length s div sz = Suc ((length s - sz) div sz)"
      using Suc.prems by (simp add: le_div_geq)
    with False Suc show ?thesis by simp
  qed
qed

lemma loaded_count:
  assumes "load_toas lc cmd infile = Inr (ntoas, ddata)"
  shows "ntoas = int (length ddata)"
proof (cases "textP cmd")
  case True
  with assms obtain s where "ntoas = count_toas (sscanf_lf lc) s 0"
    "ddata = fill_toas (sscanf_lf lc) s []"
    by (auto simp: load_toas_def read_toas_def split: option.splits)
  with count_fill [of "sscanf_lf lc" s 0 "[]"] show ?thesis by simp
next
  case False
  with assms show ?thesis
    by (auto simp: load_toas_def read_binary_def Let_def split: sum.splits if_splits)
qed

subsection \<open>The whole sweep\<close>

lemma concat_zero_blocks:
  assumes "\<And>i. i \<in> set is \<Longrightarrow> 0 \<le> f i"
  shows "concat (map (\<lambda>i. replicate (nat (f i)) (0::nat)) is) =
         replicate (nat (sum_list (map f is))) 0"
  using assms
proof (induction "is")
  case Nil
  show ?case by simp
next
  case (Cons i "is")
  have "0 \<le> f i" "0 \<le> sum_list (map f is)"
    using Cons.prems by (auto intro!: sum_list_nonneg)
  then show ?case using Cons by (simp add: nat_add_distrib replicate_add)
qed

lemma bin_toas_empty:
  assumes "0 \<le> numout cmd" "1 \<le> wl"
  shows "\<exists>r. bin_toas wl cmd g (0, []) (Some []) = Inr r \<and>
           concat (series r) = replicate (nat (numout cmd)) 0 \<and>
           placed r = 0 \<and> found r = 0"
proof -
  let ?N = "numwrites wl (numout cmd)"
  let ?s = "\<lparr>toaptr = 0, toa = g, numplaced = 0, fdata = (\<lambda>jj. 0), stray = True\<rparr>"
  let ?bs = "map (\<lambda>i. replicate (nat (numtowrite wl (numout cmd) i)) (0::nat)) [0..?N - 1]"
  have N: "0 \<le> ?N" using assms by (rule numwrites_nonneg)
  let ?df = "ddiv 1 (dt cmd)" and ?bt = "dmul (of_long wl) (dt cmd)"
  have "\<exists>s'. write_blocks wl cmd [] g ?df ?bt 0 ?s (Some []) = Inr (s', Some ([] @ ?bs)) \<and>
          numplaced s' = numplaced ?s \<and> stray s' = stray ?s"
    using assms N by (intro write_blocks_empty) simp_all
  then obtain s' where
    w: "write_blocks wl cmd [] g ?df ?bt 0 ?s (Some []) = Inr (s', Some ([] @ ?bs))"
    and p: "numplaced s' = numplaced ?s"
    by blast
  have c: "concat ?bs = replicate (nat (numout cmd)) 0"
    using assms by (simp add: concat_zero_blocks numtowrite_nonneg sum_numtowrite)
  have o: "offsets cmd To [] = []" for To by (simp add: offsets_def)
  show ?thesis
    using w p c by (simp add: bin_toas_def Let_def qsort_def o deref_def origin_def)
qed

lemma bin_toas_series:
  assumes "bin_toas wl cmd g loaded (Some []) = Inr r" "0 \<le> numout cmd" "1 \<le> wl"
  shows "map (\<lambda>b. int (length b)) (series r) =
         map (numtowrite wl (numout cmd)) [0..numwrites wl (numout cmd) - 1]"
proof -
  from assms(1) obtain s s' blocks ddata df bt where
    w: "write_blocks wl cmd ddata g df bt 0 s (Some []) = Inr (s', Some blocks)"
    and r: "series r = blocks"
    by (auto simp: bin_toas_def Let_def split: sum.splits option.splits prod.splits)
  from write_blocks_series [OF w refl assms(2,3) _ numwrites_nonneg [OF assms(2,3)]] r
  show ?thesis by auto
qed

subsection \<open>Runs on concrete inputs\<close>

text \<open>The rounded operations that the runs below perform.\<close>

lemma rounded:
  "dsub (1 / 2) 0 = 1 / 2"
  "dsub (3 / 2) 0 = 3 / 2"
  "dsub (5573204538870989 / 562949953421312) 0 = 5573204538870989 / 562949953421312"
  "ddiv 1 1 = 1"
  "of_long 65536 = 65536"
  "dmul 65536 1 = 65536"
  "of_long 0 = 0"
  "dmul 0 65536 = 0"
  "of_long 1 = 1"
  "dmul 1 65536 = 65536"
  "dmul (1 / 2) 1 = 1 / 2"
  "c_int (1 / 2) = 0"
  "dmul (3 / 2) 1 = 3 / 2"
  "c_int (3 / 2) = 1"
  "dmul (5573204538870989 / 562949953421312) 1 = 5573204538870989 / 562949953421312"
  "c_int (5573204538870989 / 562949953421312) = 9"
  "of_long 2 = 2"
  "dmul 2 1 = 2"
  "dmul 0 2 = 0"
  "dmul 1 2 = 2"
  "dmul 2 2 = 4"
  "of_long 3 = 3"
  "dmul 3 2 = 6"
  "dsub 49 0 = 49"
  "ddiv 1 49 = 5882252574524729 / 288230376151711744"
  "dmul 65536 49 = 3211264"
  "dmul 0 3211264 = 0"
  "dmul 1 3211264 = 3211264"
  "dmul 49 (5882252574524729 / 288230376151711744) = 9007199254740991 / 9007199254740992"
  "c_int (9007199254740991 / 9007199254740992) = 0"
  "dsub 98 0 = 98"
  "dmul 98 (5882252574524729 / 288230376151711744) = 9007199254740991 / 4503599627370496"
  "c_int (9007199254740991 / 4503599627370496) = 1"
  "dsub (7388718138654719 / 1073741824) 0 = 7388718138654719 / 1073741824"
  "ddiv 1 105 = 1372525600722437 / 144115188075855872"
  "dmul 65536 105 = 6881280"
  "dmul 0 6881280 = 0"
  "dmul 1 6881280 = 6881280"
  "dmul (7388718138654719 / 1073741824) (1372525600722437 / 144115188075855872) = 65536"
  "c_int 65536 = 65536"
  by code_simp+


lemmas engine_eval = bin_toas_def write_blocks.simps place_toas.simps place_def advance_def
  deref_def numwrites_def numtowrite_def c_mod_def c_div_def fwrite_def qsort_def
  compare_doubles_def offsets_def finc_def Let_def WORKLEN_def upt_conv_Cons
  seconds_from_zero_def origin_def

lemma text_B:
  "read_toas scan_decimal (Some ''0.5\<newline>1.5\<newline>1.5\<newline>9.9\<newline>'') =
     Inr (4, [Num (1 / 2), Num (3 / 2), Num (3 / 2), Num (5573204538870989 / 562949953421312)])"
  by code_simp

lemma text_comment: "read_toas scan_decimal (Some ''# no events\<newline>'') = Inr (0, [])"
  by code_simp

lemma text_tick: "read_toas scan_decimal (Some ''49\<newline>'') = Inr (1, [Num 49])"
  by code_simp

lemma text_grid: "read_toas scan_decimal (Some ''98\<newline>49\<newline>'') = Inr (2, [Num 98, Num 49])"
  by code_simp

lemma text_overrun:
  "read_toas scan_decimal (Some ''6881279.999999999\<newline>'') =
     Inr (1, [Num (7388718138654719 / 1073741824)])"
  by code_simp

lemma text_one: "read_toas scan_decimal (Some ''0.5\<newline>'') = Inr (1, [Num (1 / 2)])"
  by code_simp



lemma text_empty: "read_toas scan_decimal (Some []) = Inr (0, [])"
  by code_simp

lemma main_text:
  "main plain_libc (seconds_from_zero w n) (Some s) writable =
     (case read_toas scan_decimal (Some s) of
        Inl e \<Rightarrow> Inl e
      | Inr loaded \<Rightarrow>
          bin_toas WORKLEN (seconds_from_zero w n) (Num 0) loaded (if writable then Some [] else None))"
  by (simp add: main_def load_toas_def plain_libc_def seconds_from_zero_def split: sum.splits)

lemma run_B:
  "bin_toas WORKLEN (seconds_from_zero 1 5) (Num 0)
     (4, [Num (1 / 2), Num (3 / 2), Num (3 / 2), Num (5573204538870989 / 562949953421312)]) (Some []) =
   Inr \<lparr>series = [[1, 2, 0, 0, 0]], placed = 4, found = 4, strayed = True\<rparr>"
  by (simp add: engine_eval rounded)

lemma run_D:
  "bin_toas 2 (seconds_from_zero 1 5) (Num 0)
     (4, [Num (1 / 2), Num (3 / 2), Num (3 / 2), Num (5573204538870989 / 562949953421312)]) (Some []) =
   Inr \<lparr>series = [[1, 2], [0, 0], [0]], placed = 3, found = 4, strayed = False\<rparr>"
  by (simp add: engine_eval rounded)

lemma run_C:
  "bin_toas WORKLEN (seconds_from_zero 1 3) (Num 0) (0, []) out =
   (case out of None \<Rightarrow> Inl NullFile
    | Some bs \<Rightarrow> Inr \<lparr>series = bs @ [[0, 0, 0]], placed = 0, found = 0, strayed = True\<rparr>)"
  by (cases out) (simp_all add: engine_eval rounded)

lemma run_one:
  "bin_toas WORKLEN (seconds_from_zero 1 1) (Num 0) (1, [Num (1 / 2)]) (Some []) =
   Inr \<lparr>series = [[1]], placed = 1, found = 1, strayed = True\<rparr>"
  by (simp add: engine_eval rounded)

lemma run_tick:
  "bin_toas WORKLEN (seconds_from_zero 49 2) (Num 0) (1, [Num 49]) (Some []) =
   Inr \<lparr>series = [[1, 0]], placed = 1, found = 1, strayed = True\<rparr>"
  by (simp add: engine_eval rounded)

lemma run_grid:
  "bin_toas WORKLEN (seconds_from_zero 49 3) (Num 0) (2, [Num 98, Num 49]) (Some []) =
   Inr \<lparr>series = [[1, 1, 0]], placed = 2, found = 2, strayed = True\<rparr>"
  by (simp add: engine_eval rounded)

lemma run_overrun:
  "bin_toas WORKLEN (seconds_from_zero 105 1) (Num 0)
     (1, [Num (7388718138654719 / 1073741824)]) (Some []) =
   Inl (BufferOverrun 65536)"
  by (simp add: engine_eval rounded)

section \<open>The claims\<close>

text \<open>
  C1. The claim: placed + dropped = found, where dropped counts the TOAs outside
  \<open>[0, outputLength * dt)\<close>; for the TOAs 0.5, 1.5, 1.5, 9.9 (seconds, epoch 0) with
  \<open>dt = 1\<close> and five output points the series is \<open>[1,2,0,0,0]\<close>, three TOAs are placed and
  one is dropped. The program writes that series, but it compares a TOA with the end of
  the whole block of \<open>WORKLEN\<close> bins, not with the end of the part of the block that is
  written: the TOA at 9.9 is counted as placed, and the run reports four placed TOAs.
\<close>

theorem scenario_B_reports_four_placed:
  "main plain_libc (seconds_from_zero 1 5) (Some ''0.5\<newline>1.5\<newline>1.5\<newline>9.9\<newline>'') True =
     Inr \<lparr>series = [[1, 2, 0, 0, 0]], placed = 4, found = 4, strayed = True\<rparr>"
  by (simp add: main_text text_B run_B)

text \<open>
  C2. The claim: when the TOA source or the output sink cannot be opened, the run is
  aborted with a nonzero exit status. \<^verbatim>\<open>main\<close> does not look at what \<^verbatim>\<open>fopen\<close> returns:
  a NULL source goes to \<^verbatim>\<open>fgets\<close> or \<^verbatim>\<open>fileno\<close>, a NULL sink to \<^verbatim>\<open>fwrite\<close> and \<^verbatim>\<open>fclose\<close>,
  and no \<^verbatim>\<open>exit\<close> with a status is reached.
\<close>

theorem unopened_files_are_not_diagnosed:
  "main lc cmd None writable = Inl NullFile \<and>
   main plain_libc (seconds_from_zero 1 3) (Some ''# no events\<newline>'') False = Inl NullFile"
proof
  show "main lc cmd None writable = Inl NullFile"
    by (simp add: main_def load_toas_def read_toas_def read_binary_def getfilelen_def)
  show "main plain_libc (seconds_from_zero 1 3) (Some ''# no events\<newline>'') False = Inl NullFile"
    by (simp add: main_text text_comment run_C)
qed

text \<open>
  C3. The claim: the blocks written, put together, are bit for bit the histogram of the
  sorted, normalised TOAs over one grid of \<open>outputLength\<close> bins of width \<open>dt\<close> from the
  origin. The program finds the bin by a multiplication with the rounded \<open>1.0 / dt\<close>: with
  \<open>dt = 49\<close> the TOAs at 49 and 98 seconds are counted in the bins 0 and 1, while the grid
  has them in the bins 1 and 2.
\<close>

theorem blocks_differ_from_grid_histogram:
  "main plain_libc (seconds_from_zero 49 3) (Some ''98\<newline>49\<newline>'') True =
     Inr \<lparr>series = [[1, 1, 0]], placed = 2, found = 2, strayed = True\<rparr> \<and>
   grid_histogram 49 3
     (offsets (seconds_from_zero 49 3) (Num 0) (qsort compare_doubles [Num 98, Num 49])) =
     [0, 1, 1]"
proof
  show "main plain_libc (seconds_from_zero 49 3) (Some ''98\<newline>49\<newline>'') True =
     Inr \<lparr>series = [[1, 1, 0]], placed = 2, found = 2, strayed = True\<rparr>"
    by (simp add: main_text text_grid run_grid)
  have "offsets (seconds_from_zero 49 3) (Num 0) (qsort compare_doubles [Num 98, Num 49]) =
          [Num 49, Num 98]"
    by (simp add: offsets_def seconds_from_zero_def qsort_def compare_doubles_def rounded)
  moreover have "grid_histogram 49 3 [Num 49, Num 98] = [0, 1, 1]"
    by code_simp
  ultimately show "grid_histogram 49 3
      (offsets (seconds_from_zero 49 3) (Num 0) (qsort compare_doubles [Num 98, Num 49])) =
      [0, 1, 1]"
    by simp
qed

text \<open>
  C4. For an empty set of TOAs the run is not fatal: it ends with \<^verbatim>\<open>exit(0)\<close>, the series
  written is \<open>outputLength\<close> zeros, and no TOA is placed.
\<close>

theorem empty_input_zero_series:
  assumes "load_toas lc cmd infile = Inr (0, [])" "0 \<le> numout cmd"
  shows "\<exists>r. main lc cmd infile True = Inr r \<and>
           concat (series r) = replicate (nat (numout cmd)) 0 \<and> placed r = 0"
  using bin_toas_empty [OF assms(2), of WORKLEN "behind lc"] assms(1)
  by (auto simp: main_def WORKLEN_def)

theorem empty_input_zero_series_witness:
  "load_toas plain_libc (seconds_from_zero 1 3) (Some ''# no events\<newline>'') = Inr (0, []) \<and>
   0 \<le> numout (seconds_from_zero 1 3) \<and>
   (\<exists>r. main plain_libc (seconds_from_zero 1 3) (Some ''# no events\<newline>'') True = Inr r \<and>
        concat (series r) = [0, 0, 0] \<and> placed r = 0)"
proof -
  have l: "load_toas plain_libc (seconds_from_zero 1 3) (Some ''# no events\<newline>'') = Inr (0, [])"
    by (simp add: load_toas_def plain_libc_def seconds_from_zero_def text_comment)
  have n: "0 \<le> numout (seconds_from_zero 1 3)"
    by (simp add: seconds_from_zero_def)
  have "replicate (nat (numout (seconds_from_zero 1 3))) (0::nat) = [0, 0, 0]"
    by (simp add: seconds_from_zero_def numeral_3_eq_3)
  with empty_input_zero_series [OF l n] l n show ?thesis by simp
qed

text \<open>
  C5. The claim: in text mode a line is counted and loaded if and only if it does not
  start with \<^verbatim>\<open>#\<close>, is not blank and starts with a number, whatever lines come before it.
  The loop of \<^verbatim>\<open>read_toas\<close> ends at the first blank line: in the stream of the lines
  \<open>1\<close>, blank, \<open>2\<close> the line \<open>2\<close> qualifies and is not loaded. (It also ends at a last
  line without a newline, which is not loaded, and it reads a line of more than 79
  characters in pieces, each taken for a line.)
\<close>

theorem blank_line_ends_loading:
  "is_toa scan_decimal ''2\<newline>'' \<and>
   read_toas scan_decimal (Some ''1\<newline>\<newline>2\<newline>'') = Inr (1, [Num 1]) \<and>
   read_toas scan_decimal (Some ''1\<newline>2'') = Inr (1, [Num 1]) \<and>
   read_toas scan_decimal (Some (replicate 78 (CHR '' '') @ ''12\<newline>'')) = Inr (2, [Num 1, Num 2])"
  by code_simp

text \<open>
  C5, amended. For a stream of lines that each end with a newline and have fewer than
  79 characters, the lines loaded are, in their order, those before the first blank line
  that do not start with \<^verbatim>\<open>#\<close> and from whose start \<^verbatim>\<open>sscanf\<close> converts a number; the
  count returned is their number.
\<close>

theorem lines_before_blank_are_loaded:
  assumes "\<forall>l\<in>set ls. CHR 0x0A \<notin> set l \<and> length l < 79"
  shows "read_toas scan (Some (text_of ls)) =
         Inr (int (length (loaded_lines scan ls)),
              map (\<lambda>l. the (scan (c_string (l @ [CHR 0x0A])))) (loaded_lines scan ls))"
  using count_toas_lines [OF assms, of scan 0] fill_toas_lines [OF assms, of scan "[]"]
  by (simp add: read_toas_def)

lemma sample_lines:
  "loaded_lines scan_decimal [''1.5'', ''# 7'', ''x'', ''2'', '''', ''3''] = [''1.5'', ''2'']"
  "scan_decimal (c_string ''1.5\<newline>'') = Some (Num (3 / 2))"
  "scan_decimal (c_string ''2\<newline>'') = Some (Num 2)"
  "text_of [''1.5'', ''# 7'', ''x'', ''2'', '''', ''3''] =
     ''1.5\<newline># 7\<newline>x\<newline>2\<newline>\<newline>3\<newline>''"
  by code_simp+

theorem lines_before_blank_are_loaded_witness:
  "list_all (\<lambda>l. CHR 0x0A \<notin> set l \<and> length l < 79)
     [''1.5'', ''# 7'', ''x'', ''2'', '''', ''3''] \<and>
   read_toas scan_decimal (Some ''1.5\<newline># 7\<newline>x\<newline>2\<newline>\<newline>3\<newline>'') = Inr (2, [Num (3 / 2), Num 2])"
proof -
  have h: "\<forall>l\<in>set [''1.5'', ''# 7'', ''x'', ''2'', '''', ''3''].
             CHR 0x0A \<notin> set l \<and> length l < 79"
    by simp
  from lines_before_blank_are_loaded [OF h, of scan_decimal] h show ?thesis
    by (simp add: sample_lines)
qed

text \<open>
  C6. For \<open>outputLength \<ge> 0\<close> and a block capacity of at least 1: the number of blocks is
  \<open>outputLength / C\<close> rounded up; every block but the last has \<open>C\<close> bins; the last has
  \<open>outputLength mod C\<close> bins if that is not zero, and \<open>C\<close> otherwise; the lengths add up to
  \<open>outputLength\<close>; and these are the lengths of the blocks that a run writes.
\<close>

theorem block_length_law:
  assumes "0 \<le> n" "1 \<le> wl"
  shows "numwrites wl n = \<lceil>rat_of_int n / rat_of_int wl\<rceil> \<and>
         (\<forall>ii. 0 \<le> ii \<and> ii < numwrites wl n - 1 \<longrightarrow> numtowrite wl n ii = wl) \<and>
         (0 < n \<longrightarrow> numtowrite wl n (numwrites wl n - 1) =
                      (if n mod wl \<noteq> 0 then n mod wl else wl)) \<and>
         sum_list (map (numtowrite wl n) [0..numwrites wl n - 1]) = n \<and>
         (\<forall>cmd g loaded r.
            numout cmd = n \<and> bin_toas wl cmd g loaded (Some []) = Inr r \<longrightarrow>
            map (\<lambda>b. int (length b)) (series r) =
            map (numtowrite wl n) [0..numwrites wl n - 1])"
proof (intro conjI allI impI)
  show "numwrites wl n = \<lceil>rat_of_int n / rat_of_int wl\<rceil>"
    using assms by (rule numwrites_ceiling)
  show "numtowrite wl n ii = wl" if "0 \<le> ii \<and> ii < numwrites wl n - 1" for ii
    using that assms by (simp add: numtowrite_eq)
  show "numtowrite wl n (numwrites wl n - 1) = (if n mod wl \<noteq> 0 then n mod wl else wl)"
    using assms by (simp add: numtowrite_eq)
  show "sum_list (map (numtowrite wl n) [0..numwrites wl n - 1]) = n"
    using assms by (rule sum_numtowrite)
  show "map (\<lambda>b. int (length b)) (series r) = map (numtowrite wl n) [0..numwrites wl n - 1]"
    if "numout cmd = n \<and> bin_toas wl cmd g loaded (Some []) = Inr r" for cmd g loaded r
    using that assms bin_toas_series [of wl cmd g loaded r] by auto
qed

theorem block_length_law_witness:
  "(0::int) \<le> 5 \<and> (1::int) \<le> 2 \<and> numwrites 2 5 = 3 \<and>
   numtowrite 2 5 0 = 2 \<and> numtowrite 2 5 1 = 2 \<and> numtowrite 2 5 2 = 1 \<and>
   sum_list (map (numtowrite 2 5) [0..2]) = 5 \<and>
   numout (seconds_from_zero 1 5) = 5 \<and>
   bin_toas 2 (seconds_from_zero 1 5) (Num 0)
     (4, [Num (1 / 2), Num (3 / 2), Num (3 / 2), Num (5573204538870989 / 562949953421312)])
     (Some []) =
     Inr \<lparr>series = [[1, 2], [0, 0], [0]], placed = 3, found = 4, strayed = False\<rparr> \<and>
   map (\<lambda>b. int (length b)) [[1, 2], [0, 0], [0::nat]] = map (numtowrite 2 5) [0..2]"
proof -
  have n: "numout (seconds_from_zero 1 5) = 5" by (simp add: seconds_from_zero_def)
  have w: "numwrites 2 5 = 3" "numtowrite 2 5 0 = 2" "numtowrite 2 5 1 = 2" "numtowrite 2 5 2 = 1"
    by (simp_all add: numwrites_def numtowrite_def c_mod_def c_div_def)
  have u: "[0..2::int] = [0, 1, 2]" by (simp add: upto_rec1)
  from block_length_law [of 5 2] n w u run_D show ?thesis by simp
qed





text \<open>
  C8. The claim: a TOA whose offset is exactly \<open>k * dt\<close> increments bin \<open>k\<close>. With
  \<open>dt = 49\<close> the product of 49 and the rounded \<open>1.0 / 49\<close> rounds to the double below 1:
  the TOA at \<open>1 * dt\<close> increments bin 0.
\<close>

theorem tick_lands_one_bin_early:
  "dsub 49 (dmul (of_long 0) (dmul (of_long WORKLEN) 49)) = 1 * 49 \<and>
   c_int (dmul (dsub 49 (dmul (of_long 0) (dmul (of_long WORKLEN) 49))) (ddiv 1 49)) = 0 \<and>
   main plain_libc (seconds_from_zero 49 2) (Some ''49\<newline>'') True =
     Inr \<lparr>series = [[1, 0]], placed = 1, found = 1, strayed = True\<rparr>"
proof -
  have "main plain_libc (seconds_from_zero 49 2) (Some ''49\<newline>'') True =
     Inr \<lparr>series = [[1, 0]], placed = 1, found = 1, strayed = True\<rparr>"
    by (simp add: main_text text_tick run_tick)
  then show ?thesis by (simp add: rounded WORKLEN_def)
qed

text \<open>
  C9. The claim: every read through the TOA cursor is at an index below the number of
  TOAs. \<^verbatim>\<open>toa = *toaptr\<close> is executed before the sweep, also for an empty set, and again
  after each \<^verbatim>\<open>toaptr++\<close>, also after the last TOA: both reads are outside the array.
\<close>

theorem cursor_reads_outside_array:
  "deref [] (Num 0) 0 = (Num 0, True) \<and> deref [Num (1 / 2)] (Num 0) 1 = (Num 0, True) \<and>
   main plain_libc (seconds_from_zero 1 3) (Some []) True =
     Inr \<lparr>series = [[0, 0, 0]], placed = 0, found = 0, strayed = True\<rparr> \<and>
   main plain_libc (seconds_from_zero 1 1) (Some ''0.5\<newline>'') True =
     Inr \<lparr>series = [[1]], placed = 1, found = 1, strayed = True\<rparr>"
  by (simp add: deref_def main_text text_empty text_one run_C run_one)

text \<open>
  C10. The claim: for a TOA with \<open>lotime \<le> t < hitime\<close> the bin index is below \<open>WORKLEN\<close>.
  With \<open>dt = 105\<close> and the last double below \<open>hitime = 65536 * 105\<close> the product with the
  rounded \<open>1.0 / 105\<close> rounds to 65536: the program increments \<^verbatim>\<open>fdata[65536]\<close>.
\<close>

theorem toa_below_hitime_overruns_buffer:
  "dmul (of_long 0) (dmul (of_long WORKLEN) 105) \<le> 7388718138654719 / 1073741824 \<and>
   7388718138654719 / 1073741824 < dmul (of_long 1) (dmul (of_long WORKLEN) 105) \<and>
   c_int (dmul (dsub (7388718138654719 / 1073741824)
                  (dmul (of_long 0) (dmul (of_long WORKLEN) 105)))
            (ddiv 1 105)) = WORKLEN \<and>
   main plain_libc (seconds_from_zero 105 1) (Some ''6881279.999999999\<newline>'') True =
     Inl (BufferOverrun 65536)"
proof -
  have "main plain_libc (seconds_from_zero 105 1) (Some ''6881279.999999999\<newline>'') True =
     Inl (BufferOverrun 65536)"
    by (simp add: main_text text_overrun run_overrun)
  then show ?thesis by (simp add: rounded WORKLEN_def)
qed


end
